theory Spec2Isabelle
  imports Main "HOL-Library.AList"
begin

section \<open>The DOM the accordion works on\<close>

text \<open>
  The widget of \<^verbatim>\<open>src/accordion.js\<close> reads and writes a subtree of the page: the root
  element, its \<^verbatim>\<open>.ds-accordion__item\<close> descendants and, inside each item, the first
  \<^verbatim>\<open>.ds-accordion__trigger\<close> and the first \<^verbatim>\<open>.ds-accordion__content\<close> element
  (\<^verbatim>\<open>querySelector\<close> returns \<^verbatim>\<open>null\<close> when there is none). The structure of the subtree
  is fixed, and items are not nested in one another: the trigger and the content found in
  an item belong to that item alone, and an item may lack either. Attributes are
  association lists from names to values; \<^verbatim>\<open>classList\<close> is the list of the class names.
  Listeners registered by the page itself are left out: a dispatched event is recorded and
  nothing runs in answer to it.
\<close>

type_synonym attributes = "(string \<times> string) list"

definition getAttribute :: "attributes \<Rightarrow> string \<Rightarrow> string option" where
  "getAttribute al name = map_of al name"

definition setAttribute :: "attributes \<Rightarrow> string \<Rightarrow> string \<Rightarrow> attributes" where
  "setAttribute al name v = AList.update name v al"

definition classList_contains :: "string list \<Rightarrow> string \<Rightarrow> bool" where
  "classList_contains cl c = (c \<in> set cl)"

definition classList_add :: "string list \<Rightarrow> string \<Rightarrow> string list" where
  "classList_add cl c = (if c \<in> set cl then cl else cl @ [c])"

definition classList_remove :: "string list \<Rightarrow> string \<Rightarrow> string list" where
  "classList_remove cl c = removeAll c cl"

text \<open>
  The instance: \<^verbatim>\<open>this.options.allowMultiple\<close>, and a number standing for the identity of
  the object (two \<^verbatim>\<open>new Accordion(...)\<close> give two objects). Its \<^verbatim>\<open>this.items\<close> are the
  items of its element, read there.
\<close>

record accordion =
  iid :: nat
  allowMultiple :: bool

text \<open>
  The one-shot \<^verbatim>\<open>transitionend\<close> listeners that \<^verbatim>\<open>animateOpen\<close> and
  \<^verbatim>\<open>animateClose\<close> register on a content element.
\<close>

datatype handler = OpenEnd | CloseEnd

text \<open>
  A trigger: its attributes and the click listeners registered on it, each the closure of
  \<^verbatim>\<open>e => this.handleClick(e, index)\<close> (the instance and the index). A content: its
  \<^verbatim>\<open>id\<close> (empty when the markup gives none), its attributes, the \<^verbatim>\<open>hidden\<close> property,
  the inline \<^verbatim>\<open>style.height\<close> and \<^verbatim>\<open>style.opacity\<close>, the \<^verbatim>\<open>scrollHeight\<close> that layout
  reports (taken as given), and the pending \<^verbatim>\<open>transitionend\<close> listeners.
\<close>

record trigger_el =
  t_attrs :: attributes
  click :: "(accordion \<times> nat) list"

record content_el =
  content_id :: string
  c_attrs :: attributes
  hidden :: bool
  style_height :: string
  style_opacity :: string
  scrollHeight :: nat
  transitionend :: "handler list"

record item_el =
  classList :: "string list"
  trigger :: "trigger_el option"
  content :: "content_el option"

text \<open>
  A dispatched \<^verbatim>\<open>CustomEvent\<close>: its name, \<^verbatim>\<open>detail.accordion\<close> and
  \<^verbatim>\<open>detail.index\<close> (\<^verbatim>\<open>detail.item\<close> is the item at that index).
\<close>

record event =
  ev_name :: string
  ev_accordion :: nat
  ev_index :: "nat option"

text \<open>
  The callbacks handed to \<^verbatim>\<open>requestAnimationFrame\<close>: the closure of \<^verbatim>\<open>animateOpen\<close>
  (the content of an item and the height measured), and that of \<^verbatim>\<open>animateClose\<close>.
\<close>

datatype frame = OpenFrame nat nat | CloseFrame nat

text \<open>
  The root element and what hangs on it: \<^verbatim>\<open>dataset.allowMultiple\<close>, the marker
  \<^verbatim>\<open>_accordionInstance\<close>, the instances whose bound \<^verbatim>\<open>handleKeydown\<close> is registered
  for \<^verbatim>\<open>keydown\<close>, the items in document order, the events dispatched on it so far, and
  the animation frames requested and not yet run.
\<close>

record element =
  dataset_allowMultiple :: "string option"
  accordionInstance :: "accordion option"
  keydown :: "accordion list"
  items :: "item_el list"
  dispatched :: "event list"
  frames :: "frame list"

datatype error = TypeError | ElementRequired

text \<open>
  A call returns (\<open>Inr\<close>) or throws (\<open>Inl\<close>); a throw does not undo the writes made
  before it, so it carries the state it leaves.
\<close>

type_synonym 'a result = "(error \<times> 'a) + 'a"

definition active_class :: string where
  "active_class = ''ds-accordion__item--active''"

text \<open>The template literal \<^verbatim>\<open>`${height}px`\<close>: the decimal digits of the number.\<close>

definition digit :: "nat \<Rightarrow> char" where
  "digit k = char_of (k + 48)"

fun string_of_nat :: "nat \<Rightarrow> string" where
  "string_of_nat n =
     (if 10 \<le> n then string_of_nat (n div 10) @ [digit (n mod 10)] else [digit n])"

definition px :: "nat \<Rightarrow> string" where
  "px n = string_of_nat n @ ''px''"

definition update_item :: "nat \<Rightarrow> (item_el \<Rightarrow> item_el) \<Rightarrow> element \<Rightarrow> element" where
  "update_item i f d = d\<lparr>items := (items d)[i := f (items d ! i)]\<rparr>"

definition update_trigger :: "nat \<Rightarrow> (trigger_el \<Rightarrow> trigger_el) \<Rightarrow> element \<Rightarrow> element" where
  "update_trigger i f d = update_item i (\<lambda>it. it\<lparr>trigger := map_option f (trigger it)\<rparr>) d"

definition update_content :: "nat \<Rightarrow> (content_el \<Rightarrow> content_el) \<Rightarrow> element \<Rightarrow> element" where
  "update_content i f d = update_item i (\<lambda>it. it\<lparr>content := map_option f (content it)\<rparr>) d"

text \<open>
  \<^verbatim>\<open>this.items[index]\<close>: the item when the index is one of \<open>0 .. length - 1\<close>,
  \<^verbatim>\<open>undefined\<close> otherwise (also for a negative index).
\<close>

definition item_at :: "element \<Rightarrow> int \<Rightarrow> (nat \<times> item_el) option" where
  "item_at d index =
     (if 0 \<le> index \<and> index < int (length (items d))
      then Some (nat index, items d ! nat index) else None)"

section \<open>Utils\<close>

definition dispatchEvent :: "accordion \<Rightarrow> string \<Rightarrow> nat option \<Rightarrow> element \<Rightarrow> element" where
  "dispatchEvent this name index d =
     d\<lparr>dispatched := dispatched d @
        [\<lparr>ev_name = ''ds-accordion:'' @ name, ev_accordion = iid this, ev_index = index\<rparr>]\<rparr>"

section \<open>Animations\<close>

text \<open>
  \<^verbatim>\<open>animateOpen(content)\<close> and \<^verbatim>\<open>animateClose(content, trigger)\<close> for the content of
  item \<open>i\<close>: the height is read, the starting style is written, and the callback is
  queued for the next frame. Both are reached with a content only: for an item without
  one the caller has thrown (\<open>open\<close> at \<^verbatim>\<open>content.hidden = false\<close>) or throws here at
  \<^verbatim>\<open>content.scrollHeight\<close>, which \<open>close\<close> below decides before the call.
\<close>

definition animateOpen :: "nat \<Rightarrow> element \<Rightarrow> element" where
  "animateOpen i d =
     (case content (items d ! i) of
        None \<Rightarrow> d
      | Some c \<Rightarrow>
          let height = scrollHeight c;
              d1 = update_content i (\<lambda>c. c\<lparr>style_height := ''0px'', style_opacity := ''0''\<rparr>) d
          in d1\<lparr>frames := frames d1 @ [OpenFrame i height]\<rparr>)"

definition animateClose :: "nat \<Rightarrow> element \<Rightarrow> element" where
  "animateClose i d =
     (case content (items d ! i) of
        None \<Rightarrow> d
      | Some c \<Rightarrow>
          let height = scrollHeight c;
              d1 = update_content i (\<lambda>c. c\<lparr>style_height := px height, style_opacity := ''1''\<rparr>) d
          in d1\<lparr>frames := frames d1 @ [CloseFrame i]\<rparr>)"

section \<open>State management\<close>

text \<open>
  \<^verbatim>\<open>close(index, animate)\<close> and \<^verbatim>\<open>open(index, animate)\<close>, statement by statement; the
  default \<^verbatim>\<open>animate = true\<close> is the caller's to pass. \<^verbatim>\<open>trigger.setAttribute\<close> on a
  missing trigger and \<^verbatim>\<open>content.hidden = ...\<close> on a missing content throw a
  \<^verbatim>\<open>TypeError\<close>, after the writes that precede them.
\<close>

definition close :: "accordion \<Rightarrow> element \<Rightarrow> int \<Rightarrow> bool \<Rightarrow> element result" where
  "close this d index animate =
     (case item_at d index of
        None \<Rightarrow> Inr d
      | Some (i, item) \<Rightarrow>
          let d1 = update_item i
                     (\<lambda>it. it\<lparr>classList := classList_remove (classList it) active_class\<rparr>) d
          in if trigger item = None then Inl (TypeError, d1)
          else
            let d2 = update_trigger i
                       (\<lambda>t. t\<lparr>t_attrs := setAttribute (t_attrs t) ''aria-expanded'' ''false''\<rparr>) d1
            in if content item = None then Inl (TypeError, d2)
            else if \<not> animate then
              Inr (dispatchEvent this ''closed'' (Some i)
                    (update_content i
                       (\<lambda>c. c\<lparr>hidden := True, style_height := '''', style_opacity := ''''\<rparr>) d2))
            else Inr (dispatchEvent this ''closed'' (Some i) (animateClose i d2)))"

text \<open>
  \<^verbatim>\<open>this.items.forEach((_, i) => { if (i !== index) this.close(i, animate); })\<close>,
  over the indices still to visit; a throw of \<open>close\<close> ends the loop.
\<close>

fun close_others :: "accordion \<Rightarrow> nat list \<Rightarrow> int \<Rightarrow> bool \<Rightarrow> element \<Rightarrow> element result" where
  "close_others this [] index animate d = Inr d"
| "close_others this (i # is) index animate d =
     (if int i \<noteq> index then
        (case close this d (int i) animate of
           Inl e \<Rightarrow> Inl e
         | Inr d' \<Rightarrow> close_others this is index animate d')
      else close_others this is index animate d)"

definition "open" :: "accordion \<Rightarrow> element \<Rightarrow> int \<Rightarrow> bool \<Rightarrow> element result" where
  "open this d index animate =
     (case item_at d index of
        None \<Rightarrow> Inr d
      | Some (i, item) \<Rightarrow>
          (case (if \<not> allowMultiple this
                 then close_others this [0..<length (items d)] index animate d
                 else Inr d) of
             Inl e \<Rightarrow> Inl e
           | Inr d0 \<Rightarrow>
               let d1 = update_item i
                          (\<lambda>it. it\<lparr>classList := classList_add (classList it) active_class\<rparr>) d0
               in if trigger item = None then Inl (TypeError, d1)
               else
                 let d2 = update_trigger i
                            (\<lambda>t. t\<lparr>t_attrs := setAttribute (t_attrs t) ''aria-expanded'' ''true''\<rparr>) d1
                 in if content item = None then Inl (TypeError, d2)
                 else
                   let d3 = update_content i (\<lambda>c. c\<lparr>hidden := False\<rparr>) d2
                   in if \<not> animate then
                        Inr (dispatchEvent this ''opened'' (Some i)
                              (update_content i
                                 (\<lambda>c. c\<lparr>style_height := '''', style_opacity := ''''\<rparr>) d3))
                      else Inr (dispatchEvent this ''opened'' (Some i) (animateOpen i d3))))"

section \<open>Frames and transitions\<close>

text \<open>
  What the browser does between calls. At the next paint it runs the callbacks queued with
  \<^verbatim>\<open>requestAnimationFrame\<close>, in order; when a transition of a content element ends it
  runs the \<^verbatim>\<open>transitionend\<close> listeners of that element, in order, and drops them
  (\<^verbatim>\<open>once: true\<close>). The listener of \<^verbatim>\<open>animateClose\<close> reads the trigger of the same
  item, which exists whenever \<^verbatim>\<open>animateClose\<close> was reached.
\<close>

fun run_frame :: "frame \<Rightarrow> element \<Rightarrow> element" where
  "run_frame (OpenFrame i height) d =
     update_content i
       (\<lambda>c. c\<lparr>style_height := px height, style_opacity := ''1'',
              transitionend := transitionend c @ [OpenEnd]\<rparr>) d"
| "run_frame (CloseFrame i) d =
     update_content i
       (\<lambda>c. c\<lparr>style_height := ''0px'', style_opacity := ''0'',
              transitionend := transitionend c @ [CloseEnd]\<rparr>) d"

definition animation_frame :: "element \<Rightarrow> element" where
  "animation_frame d = fold run_frame (frames d) (d\<lparr>frames := []\<rparr>)"

text \<open>\<^verbatim>\<open>trigger.getAttribute('aria-expanded') === 'true'\<close>\<close>

definition aria_expanded :: "item_el \<Rightarrow> bool" where
  "aria_expanded it =
     (case trigger it of
        None \<Rightarrow> False
      | Some t \<Rightarrow> getAttribute (t_attrs t) ''aria-expanded'' = Some ''true'')"

fun run_handler :: "nat \<Rightarrow> handler \<Rightarrow> element \<Rightarrow> element" where
  "run_handler i OpenEnd d = update_content i (\<lambda>c. c\<lparr>style_height := ''''\<rparr>) d"
| "run_handler i CloseEnd d =
     update_content i
       (\<lambda>c. c\<lparr>hidden := \<not> aria_expanded (items d ! i),
              style_height := '''', style_opacity := ''''\<rparr>) d"

definition transitionend_event :: "nat \<Rightarrow> element \<Rightarrow> element" where
  "transitionend_event i d =
     (case item_at d (int i) of
        None \<Rightarrow> d
      | Some (_, item) \<Rightarrow>
          (case content item of
             None \<Rightarrow> d
           | Some c \<Rightarrow>
               fold (run_handler i) (transitionend c)
                 (update_content i (\<lambda>c. c\<lparr>transitionend := []\<rparr>) d)))"

section \<open>Events\<close>

text \<open>
  \<^verbatim>\<open>handleClick(event, index)\<close>; reading \<^verbatim>\<open>this.items[index]\<close> outside the items, or a
  trigger that is not there, throws.
\<close>

definition handleClick :: "accordion \<Rightarrow> element \<Rightarrow> nat \<Rightarrow> element result" where
  "handleClick this d index =
     (case item_at d (int index) of
        None \<Rightarrow> Inl (TypeError, d)
      | Some (_, item) \<Rightarrow>
          (case trigger item of
             None \<Rightarrow> Inl (TypeError, d)
           | Some t \<Rightarrow>
               if getAttribute (t_attrs t) ''aria-expanded'' = Some ''true''
               then close this d (int index) True
               else open this d (int index) True))"

text \<open>
  The target of a key event: the trigger that \<^verbatim>\<open>querySelector\<close> finds in item \<open>k\<close>,
  another element carrying the trigger class, or an element without it.
\<close>

datatype target = TriggerOf nat | StrayTrigger | OtherElement








section \<open>Init\<close>

text \<open>
  The loop \<^verbatim>\<open>this.items.forEach((item, index) => { ... })\<close> of \<^verbatim>\<open>init()\<close>, over the
  indices still to visit: an item without trigger or content is passed over, the others
  get their \<^verbatim>\<open>id\<close> and \<^verbatim>\<open>aria-controls\<close>, are opened or closed without animation as
  the markup says, and get their click listener. A throw of \<open>open\<close> or \<open>close\<close> ends
  the loop. \<^verbatim>\<open>generateId()\<close> reads the clock and a random number: the identifier it
  gives for the item at a position is a parameter \<open>gen\<close>.
\<close>

fun init_items :: "accordion \<Rightarrow> (nat \<Rightarrow> string) \<Rightarrow> nat list \<Rightarrow> element \<Rightarrow> element result" where
  "init_items this gen [] d = Inr d"
| "init_items this gen (index # rest) d =
     (case (trigger (items d ! index), content (items d ! index)) of
        (Some t, Some c) \<Rightarrow>
          let cid = (if content_id c = '''' then ''ds-accordion-content-'' @ gen index
                     else content_id c);
              d1 = update_content index (\<lambda>c. c\<lparr>content_id := cid\<rparr>) d;
              d2 = update_trigger index
                     (\<lambda>t. t\<lparr>t_attrs := setAttribute (t_attrs t) ''aria-controls'' cid\<rparr>) d1;
              isActive = (classList_contains (classList (items d ! index)) active_class \<or>
                          getAttribute (t_attrs t) ''aria-expanded'' = Some ''true'')
          in (case (if isActive then open this d2 (int index) False
                    else close this d2 (int index) False) of
                Inl e \<Rightarrow> Inl e
              | Inr d3 \<Rightarrow>
                  init_items this gen rest
                    (update_trigger index (\<lambda>t. t\<lparr>click := click t @ [(this, index)]\<rparr>) d3))
      | _ \<Rightarrow> init_items this gen rest d)"

text \<open>
  \<^verbatim>\<open>element.addEventListener('keydown', this.handleKeydown)\<close> registers the bound
  handler of the instance, and does nothing when that same function is registered already.
\<close>

definition add_keydown :: "accordion \<Rightarrow> element \<Rightarrow> element" where
  "add_keydown this d =
     (if this \<in> set (keydown d) then d else d\<lparr>keydown := keydown d @ [this]\<rparr>)"

definition init :: "accordion \<Rightarrow> (nat \<Rightarrow> string) \<Rightarrow> element \<Rightarrow> element result" where
  "init this gen d =
     (case init_items this gen [0..<length (items d)] d of
        Inl e \<Rightarrow> Inl e
      | Inr d1 \<Rightarrow> Inr (dispatchEvent this ''initialized'' None (add_keydown this d1)))"

text \<open>
  \<^verbatim>\<open>new Accordion(element, options)\<close>: \<open>fresh\<close> is the identity of the new object,
  \<open>options\<close> the value of the key \<^verbatim>\<open>allowMultiple\<close> of the options when they have it.
\<close>

definition new_Accordion ::
  "nat \<Rightarrow> element option \<Rightarrow> bool option \<Rightarrow> (nat \<Rightarrow> string) \<Rightarrow>
   (error \<times> element option) + (accordion \<times> element)" where
  "new_Accordion fresh el options gen =
     (case el of
        None \<Rightarrow> Inl (ElementRequired, None)
      | Some d \<Rightarrow>
          let this = \<lparr>iid = fresh,
                      allowMultiple = (case options of
                                         Some b \<Rightarrow> b
                                       | None \<Rightarrow> dataset_allowMultiple d = Some ''true'')\<rparr>
          in (case init this gen (d\<lparr>accordionInstance := Some this\<rparr>) of
                Inl (e, d1) \<Rightarrow> Inl (e, Some d1)
              | Inr d1 \<Rightarrow> Inr (this, d1)))"

text \<open>
  \<^verbatim>\<open>destroy()\<close>: the bound \<^verbatim>\<open>handleKeydown\<close> of this instance is removed from the
  element, and the marker is deleted.
\<close>

definition destroy :: "accordion \<Rightarrow> element \<Rightarrow> element" where
  "destroy this d = d\<lparr>keydown := remove1 this (keydown d), accordionInstance := None\<rparr>"

section \<open>Auto-init\<close>

text \<open>
  \<^verbatim>\<open>initAccordions(root)\<close> over the elements that
  \<^verbatim>\<open>querySelectorAll('[data-toggle="ds-accordion"]')\<close> finds; \<open>fresh\<close> is the identity of
  the next object, \<open>gen\<close> the identifiers \<^verbatim>\<open>generateId()\<close> gives to each of them.
\<close>

fun initAccordions ::
  "nat \<Rightarrow> (nat \<Rightarrow> nat \<Rightarrow> string) \<Rightarrow> element list \<Rightarrow> element list result" where
  "initAccordions fresh gen [] = Inr []"
| "initAccordions fresh gen (el # els) =
     (if accordionInstance el = None then
        (case new_Accordion fresh (Some el) None (gen fresh) of
           Inl (e, el1) \<Rightarrow> Inl (e, (case el1 of None \<Rightarrow> el | Some el2 \<Rightarrow> el2) # els)
         | Inr (this, el1) \<Rightarrow>
             (case initAccordions (Suc fresh) gen els of
                Inl (e, els1) \<Rightarrow> Inl (e, el1 # els1)
              | Inr els1 \<Rightarrow> Inr (el1 # els1)))
      else
        (case initAccordions fresh gen els of
           Inl (e, els1) \<Rightarrow> Inl (e, el # els1)
         | Inr els1 \<Rightarrow> Inr (el # els1)))"

section \<open>The state machine of the specification\<close>

text \<open>
  The code keeps no state of its own for an item. The specification gives every item one of
  four states and says, in its words, what a call does to them: \<open>open\<close> and \<open>close\<close> leave
  an item that is already in the requested terminal state as it is, an animated call starts
  a transition and a call without animation commits the terminal state, and with
  \<open>allowMultiple\<close> false \<open>open\<close> first closes every other currently-open item with the same
  \<open>animate\<close> flag. The definitions below follow these words, not the code, and are what
  the attribute \<^verbatim>\<open>aria-expanded\<close> written by the code is compared with.
\<close>

datatype openState = Closed | Opening | Open | Closing

definition currently_open :: "openState \<Rightarrow> bool" where
  "currently_open st = (st = Opening \<or> st = Open)"

definition spec_close_item :: "bool \<Rightarrow> openState \<Rightarrow> openState" where
  "spec_close_item animate st = (if st = Closed then Closed else if animate then Closing else Closed)"

definition spec_open_item :: "bool \<Rightarrow> openState \<Rightarrow> openState" where
  "spec_open_item animate st = (if st = Open then Open else if animate then Opening else Open)"

definition spec_close :: "openState list \<Rightarrow> int \<Rightarrow> bool \<Rightarrow> openState list" where
  "spec_close sts index animate =
     (if 0 \<le> index \<and> index < int (length sts)
      then sts[nat index := spec_close_item animate (sts ! nat index)] else sts)"

fun spec_cascade :: "nat \<Rightarrow> int \<Rightarrow> bool \<Rightarrow> openState list \<Rightarrow> openState list" where
  "spec_cascade k index animate [] = []"
| "spec_cascade k index animate (st # sts) =
     (if int k \<noteq> index \<and> currently_open st then spec_close_item animate st else st)
       # spec_cascade (Suc k) index animate sts"

definition spec_open :: "bool \<Rightarrow> openState list \<Rightarrow> int \<Rightarrow> bool \<Rightarrow> openState list" where
  "spec_open multiple sts index animate =
     (if 0 \<le> index \<and> index < int (length sts) then
        (let sts1 = (if \<not> multiple then spec_cascade 0 index animate sts else sts)
         in sts1[nat index := spec_open_item animate (sts1 ! nat index)])
      else sts)"

text \<open>
  The trigger of every item has \<^verbatim>\<open>aria-expanded == "true"\<close> exactly when the state of the
  item is Opening or Open.
\<close>

definition tracks :: "element \<Rightarrow> openState list \<Rightarrow> bool" where
  "tracks d sts = list_all2 (\<lambda>it st. aria_expanded it = currently_open st) (items d) sts"

section \<open>Observations\<close>

text \<open>Every item has a trigger and a content element, as the markup contract asks.\<close>

definition has_parts :: "item_el \<Rightarrow> bool" where
  "has_parts it = (trigger it \<noteq> None \<and> content it \<noteq> None)"

definition well_formed :: "element \<Rightarrow> bool" where
  "well_formed d = list_all has_parts (items d)"

definition has_active_class :: "item_el \<Rightarrow> bool" where
  "has_active_class it = classList_contains (classList it) active_class"

definition aria_expanded_attr :: "item_el \<Rightarrow> string option" where
  "aria_expanded_attr it =
     (case trigger it of None \<Rightarrow> None | Some t \<Rightarrow> getAttribute (t_attrs t) ''aria-expanded'')"

definition content_hidden :: "item_el \<Rightarrow> bool option" where
  "content_hidden it = map_option hidden (content it)"

definition content_attr :: "item_el \<Rightarrow> string \<Rightarrow> string option" where
  "content_attr it name =
     (case content it of None \<Rightarrow> None | Some c \<Rightarrow> getAttribute (c_attrs c) name)"

text \<open>The classes, the attributes and the hidden flag of every item.\<close>

definition observe ::
  "item_el \<Rightarrow> string list \<times> attributes option \<times> (string \<times> attributes \<times> bool) option" where
  "observe it =
     (classList it, map_option t_attrs (trigger it),
      map_option (\<lambda>c. (content_id c, c_attrs c, hidden c)) (content it))"

definition observable ::
  "element \<Rightarrow> (string list \<times> attributes option \<times> (string \<times> attributes \<times> bool) option) list" where
  "observable d = map observe (items d)"

definition closed_event :: "accordion \<Rightarrow> nat \<Rightarrow> event" where
  "closed_event this i =
     \<lparr>ev_name = ''ds-accordion:closed'', ev_accordion = iid this, ev_index = Some i\<rparr>"

definition opened_event :: "accordion \<Rightarrow> nat \<Rightarrow> event" where
  "opened_event this i =
     \<lparr>ev_name = ''ds-accordion:opened'', ev_accordion = iid this, ev_index = Some i\<rparr>"

text \<open>What \<open>close\<close> and \<open>open\<close> leave of an item that has a trigger and a content.\<close>

definition closed_item :: "bool \<Rightarrow> item_el \<Rightarrow> item_el" where
  "closed_item animate it =
     it\<lparr>classList := classList_remove (classList it) active_class,
        trigger := map_option
          (\<lambda>t. t\<lparr>t_attrs := setAttribute (t_attrs t) ''aria-expanded'' ''false''\<rparr>) (trigger it),
        content := map_option
          (\<lambda>c. if animate then c\<lparr>style_height := px (scrollHeight c), style_opacity := ''1''\<rparr>
               else c\<lparr>hidden := True, style_height := '''', style_opacity := ''''\<rparr>)
          (content it)\<rparr>"

definition opened_item :: "bool \<Rightarrow> item_el \<Rightarrow> item_el" where
  "opened_item animate it =
     it\<lparr>classList := classList_add (classList it) active_class,
        trigger := map_option
          (\<lambda>t. t\<lparr>t_attrs := setAttribute (t_attrs t) ''aria-expanded'' ''true''\<rparr>) (trigger it),
        content := map_option
          (\<lambda>c. if animate then c\<lparr>hidden := False, style_height := ''0px'', style_opacity := ''0''\<rparr>
               else c\<lparr>hidden := False, style_height := '''', style_opacity := ''''\<rparr>)
          (content it)\<rparr>"

text \<open>The indices at which the loop of \<open>open\<close> calls \<open>close\<close>.\<close>

definition others :: "nat list \<Rightarrow> int \<Rightarrow> nat list" where
  "others js index = filter (\<lambda>j. int j \<noteq> index) js"

text \<open>The height \<^verbatim>\<open>animateOpen\<close> reads from the content of an item.\<close>

definition measured :: "item_el \<Rightarrow> nat" where
  "measured it = (case content it of None \<Rightarrow> 0 | Some c \<Rightarrow> scrollHeight c)"

text \<open>
  The state \<open>close\<close> and \<open>open\<close> return on an index \<open>i\<close> in range, when they return.
\<close>

definition closed_state :: "accordion \<Rightarrow> element \<Rightarrow> nat \<Rightarrow> bool \<Rightarrow> element" where
  "closed_state this d i animate =
     d\<lparr>items := (items d)[i := closed_item animate (items d ! i)],
       dispatched := dispatched d @ [closed_event this i],
       frames := frames d @ (if animate then [CloseFrame i] else [])\<rparr>"

definition opened_state :: "accordion \<Rightarrow> element \<Rightarrow> nat \<Rightarrow> bool \<Rightarrow> element" where
  "opened_state this d i animate =
     d\<lparr>items := map (\<lambda>j. if j = i then opened_item animate (items d ! j)
                         else if allowMultiple this then items d ! j
                         else closed_item animate (items d ! j))
                  [0..<length (items d)],
       dispatched := dispatched d @
         (if allowMultiple this then []
          else map (closed_event this) (others [0..<length (items d)] (int i))) @
         [opened_event this i],
       frames := frames d @
         (if allowMultiple this \<or> \<not> animate then []
          else map CloseFrame (others [0..<length (items d)] (int i))) @
         (if animate then [OpenFrame i (measured (items d ! i))] else [])\<rparr>"

section \<open>A page to run the code on\<close>

definition demo_trigger :: trigger_el where
  "demo_trigger = \<lparr>t_attrs = [], click = []\<rparr>"

definition demo_content :: content_el where
  "demo_content =
     \<lparr>content_id = '''', c_attrs = [], hidden = False, style_height = '''',
      style_opacity = '''', scrollHeight = 120, transitionend = []\<rparr>"

definition demo_item :: item_el where
  "demo_item =
     \<lparr>classList = [''ds-accordion__item''], trigger = Some demo_trigger,
      content = Some demo_content\<rparr>"

definition demo_active_item :: item_el where
  "demo_active_item =
     \<lparr>classList = [''ds-accordion__item'', ''ds-accordion__item--active''],
      trigger = Some demo_trigger, content = Some demo_content\<rparr>"

definition demo_bare_item :: item_el where
  "demo_bare_item =
     \<lparr>classList = [''ds-accordion__item''], trigger = Some demo_trigger, content = None\<rparr>"

definition demo_element :: "item_el list \<Rightarrow> element" where
  "demo_element its =
     \<lparr>dataset_allowMultiple = None, accordionInstance = None, keydown = [], items = its,
      dispatched = [], frames = []\<rparr>"

definition demo_gen :: "nat \<Rightarrow> string" where
  "demo_gen i = ''demo-'' @ string_of_nat i"

definition single :: accordion where
  "single = \<lparr>iid = 0, allowMultiple = False\<rparr>"

definition multiple :: accordion where
  "multiple = \<lparr>iid = 0, allowMultiple = True\<rparr>"

text \<open>
  A widget of two items constructed from markup with \<^verbatim>\<open>data-allow-multiple="true"\<close> in
  which both items carry the active class: after construction both are open.
\<close>

definition constructed_multiple :: element where
  "constructed_multiple =
     (case new_Accordion 0
             (Some ((demo_element [demo_active_item, demo_active_item])
                      \<lparr>dataset_allowMultiple := Some ''true''\<rparr>)) None demo_gen of
        Inl _ \<Rightarrow> demo_element []
      | Inr (this, d) \<Rightarrow> d)"

text \<open>The state a call leaves, whether it returns or throws.\<close>

definition after :: "'a result \<Rightarrow> 'a" where
  "after r = (case r of Inl (e, d) \<Rightarrow> d | Inr d \<Rightarrow> d)"

text \<open>
  A widget of two items constructed from markup in which the second item carries the
  active class: after construction item 0 is closed and item 1 is open.
\<close>

definition constructed :: element where
  "constructed =
     (case new_Accordion 0 (Some (demo_element [demo_item, demo_active_item])) None demo_gen of
        Inl _ \<Rightarrow> demo_element []
      | Inr (this, d) \<Rightarrow> d)"

text \<open>
  A widget of one item whose content carries \<^verbatim>\<open>aria-hidden="true"\<close> in the markup, and
  the state its construction leaves.
\<close>

definition demo_marked :: element where
  "demo_marked =
     demo_element
       [\<lparr>classList = [''ds-accordion__item''], trigger = Some demo_trigger,
         content = Some (demo_content\<lparr>c_attrs := [(''aria-hidden'', ''true'')]\<rparr>)\<rparr>]"

definition constructed_marked :: element where
  "constructed_marked =
     (case new_Accordion 0 (Some demo_marked) None demo_gen of
        Inl _ \<Rightarrow> demo_element []
      | Inr (this, d) \<Rightarrow> d)"


text \<open>The click listeners registered on the trigger of every item.\<close>

definition click_listeners :: "element \<Rightarrow> (accordion \<times> nat) list list" where
  "click_listeners d =
     map (\<lambda>it. case trigger it of None \<Rightarrow> [] | Some t \<Rightarrow> click t) (items d)"

text \<open>
  A click on the trigger of item \<open>i\<close>: the browser calls the click listeners of the trigger
  in the order of their registration; a listener that throws is reported and the next one
  still runs.
\<close>

fun run_click_listeners :: "(accordion \<times> nat) list \<Rightarrow> element \<Rightarrow> element" where
  "run_click_listeners [] d = d"
| "run_click_listeners ((this, index) # ls) d =
     run_click_listeners ls (after (handleClick this d index))"

definition click_event :: "nat \<Rightarrow> element \<Rightarrow> element" where
  "click_event i d =
     (case item_at d (int i) of
        None \<Rightarrow> d
      | Some (_, item) \<Rightarrow>
          (case trigger item of
             None \<Rightarrow> d
           | Some t \<Rightarrow> run_click_listeners (click t) d))"

text \<open>
  Item 1 of the constructed widget closed with animation, the frame run, and the item opened
  again before the transition of the close has ended.
\<close>

definition reopened :: element where
  "reopened =
     after (open single (animation_frame (after (close single constructed 1 True))) 1 True)"

text \<open>
  The constructed widget destroyed, and the page scanned again: \<open>initAccordions\<close> makes a
  second instance for the element.
\<close>

definition rescanned :: element where
  "rescanned =
     (case after (initAccordions 1 (\<lambda>_. demo_gen) [destroy single constructed]) of
        [] \<Rightarrow> demo_element []
      | d # _ \<Rightarrow> d)"

text \<open>
  A widget of two items constructed from markup whose second item has a trigger and no
  content: \<open>init\<close> closes item 0 and passes over item 1.
\<close>

definition constructed_half :: element where
  "constructed_half =
     (case new_Accordion 0 (Some (demo_element [demo_item, demo_bare_item])) None demo_gen of
        Inl _ \<Rightarrow> demo_element []
      | Inr (this, d) \<Rightarrow> d)"

text \<open>A widget constructed from markup whose only item has a trigger and no content.\<close>

definition constructed_bare :: element where
  "constructed_bare =
     (case new_Accordion 0 (Some (demo_element [demo_bare_item])) None demo_gen of
        Inl _ \<Rightarrow> demo_element []
      | Inr (this, d) \<Rightarrow> d)"

section \<open>Properties\<close>

subsection \<open>What a call leaves\<close>

lemma well_formed_nth:
  "well_formed d \<Longrightarrow> i < length (items d) \<Longrightarrow> has_parts (items d ! i)"
  by (simp add: well_formed_def list_all_length)

lemma closed_item_parts [simp]: "has_parts (closed_item animate it) = has_parts it"
  by (simp add: closed_item_def has_parts_def)

lemma opened_item_parts [simp]: "has_parts (opened_item animate it) = has_parts it"
  by (simp add: opened_item_def has_parts_def)

lemma closed_state_simps [simp]:
  "length (items (closed_state this d i animate)) = length (items d)"
  "dispatched (closed_state this d i animate) = dispatched d @ [closed_event this i]"
  "frames (closed_state this d i animate) = frames d @ (if animate then [CloseFrame i] else [])"
  by (simp_all add: closed_state_def)

lemma closed_state_nth:
  "j < length (items d) \<Longrightarrow>
   items (closed_state this d i animate) ! j =
     (if j = i then closed_item animate (items d ! j) else items d ! j)"
  by (auto simp add: closed_state_def nth_list_update)

lemma opened_state_simps [simp]:
  "length (items (opened_state this d i animate)) = length (items d)"
  "dispatched (opened_state this d i animate) =
     dispatched d @
       (if allowMultiple this then []
        else map (closed_event this) (others [0..<length (items d)] (int i))) @
       [opened_event this i]"
  "frames (opened_state this d i animate) =
     frames d @
       (if allowMultiple this \<or> \<not> animate then []
        else map CloseFrame (others [0..<length (items d)] (int i))) @
       (if animate then [OpenFrame i (measured (items d ! i))] else [])"
  by (simp_all add: opened_state_def)

lemma opened_state_nth:
  "j < length (items d) \<Longrightarrow>
   items (opened_state this d i animate) ! j =
     (if j = i then opened_item animate (items d ! j)
      else if allowMultiple this then items d ! j
      else closed_item animate (items d ! j))"
  by (simp add: opened_state_def)

lemma well_formed_closed_state [simp]:
  "i < length (items d) \<Longrightarrow> well_formed (closed_state this d i animate) = well_formed d"
  by (auto simp add: well_formed_def list_all_length closed_state_nth)

lemma well_formed_opened_state [simp]:
  "well_formed (opened_state this d i animate) = well_formed d"
  by (auto simp add: well_formed_def list_all_length opened_state_nth)

lemma close_wf:
  assumes "i < length (items d)" and "has_parts (items d ! i)"
  shows "close this d (int i) animate = Inr (closed_state this d i animate)"
  using assms
  by (auto simp add: close_def item_at_def has_parts_def update_item_def update_trigger_def
      update_content_def animateClose_def dispatchEvent_def closed_item_def closed_event_def
      closed_state_def Let_def)

lemma close_others_wf:
  assumes "well_formed d" and "distinct js" and "\<forall>j\<in>set js. j < length (items d)"
  shows "close_others this js index animate d =
     Inr (d\<lparr>items := map (\<lambda>j. if j \<in> set js \<and> int j \<noteq> index
                               then closed_item animate (items d ! j) else items d ! j)
                       [0..<length (items d)],
            dispatched := dispatched d @ map (closed_event this) (others js index),
            frames := frames d @ (if animate then map CloseFrame (others js index) else [])\<rparr>)"
  using assms
proof (induction js arbitrary: d)
  case Nil
  have "map (\<lambda>j. items d ! j) [0..<length (items d)] = items d"
    by (simp add: map_nth)
  then show ?case by (simp add: others_def)
next
  case (Cons i js)
  show ?case
  proof (cases "int i = index")
    case True
    have "map (\<lambda>j. if j \<in> set js \<and> int j \<noteq> index
                     then closed_item animate (items d ! j) else items d ! j)
              [0..<length (items d)] =
          map (\<lambda>j. if j \<in> set (i # js) \<and> int j \<noteq> index
                     then closed_item animate (items d ! j) else items d ! j)
              [0..<length (items d)]"
      using True by auto
    with True Cons show ?thesis by (simp add: others_def)
  next
    case False
    let ?d1 = "closed_state this d i animate"
    have i: "i < length (items d)" using Cons.prems by simp
    have c: "close this d (int i) animate = Inr ?d1"
      by (rule close_wf [OF i well_formed_nth [OF Cons.prems(1) i]])
    have wf1: "well_formed ?d1"
      using Cons.prems(1) i by simp
    have ih: "close_others this js index animate ?d1 =
       Inr (?d1\<lparr>items := map (\<lambda>j. if j \<in> set js \<and> int j \<noteq> index
                               then closed_item animate (items ?d1 ! j) else items ?d1 ! j)
                       [0..<length (items ?d1)],
            dispatched := dispatched ?d1 @ map (closed_event this) (others js index),
            frames := frames ?d1 @ (if animate then map CloseFrame (others js index) else [])\<rparr>)"
      using Cons.IH [OF wf1] Cons.prems by simp
    have its: "map (\<lambda>j. if j \<in> set js \<and> int j \<noteq> index
                       then closed_item animate (items ?d1 ! j) else items ?d1 ! j)
                [0..<length (items ?d1)] =
         map (\<lambda>j. if j \<in> set (i # js) \<and> int j \<noteq> index
                       then closed_item animate (items d ! j) else items d ! j)
                [0..<length (items d)]"
      using False Cons.prems(2) i by (auto simp add: closed_state_nth)
    show ?thesis
      using False c ih its by (simp add: others_def closed_state_def)
  qed
qed

lemma open_multiple:
  assumes "allowMultiple this" and "i < length (items d)" and "has_parts (items d ! i)"
  shows "open this d (int i) animate = Inr (opened_state this d i animate)"
proof -
  have "(items d)[i := opened_item animate (items d ! i)] =
        map (\<lambda>j. if j = i then opened_item animate (items d ! j) else items d ! j)
          [0..<length (items d)]"
    by (rule nth_equalityI) (auto simp add: nth_list_update)
  then show ?thesis
    using assms
    by (auto simp add: open_def item_at_def has_parts_def update_item_def update_trigger_def
        update_content_def animateOpen_def dispatchEvent_def opened_item_def opened_event_def
        opened_state_def measured_def Let_def)
qed

lemma open_single:
  assumes "\<not> allowMultiple this" and "well_formed d" and "i < length (items d)"
  shows "open this d (int i) animate = Inr (opened_state this d i animate)"
proof -
  let ?its = "map (\<lambda>j. if j \<in> set [0..<length (items d)] \<and> int j \<noteq> int i
                         then closed_item animate (items d ! j) else items d ! j)
                  [0..<length (items d)]"
  let ?d0 = "d\<lparr>items := ?its,
       dispatched := dispatched d @
         map (closed_event this) (others [0..<length (items d)] (int i)),
       frames := frames d @
         (if animate then map CloseFrame (others [0..<length (items d)] (int i)) else [])\<rparr>"
  have p: "has_parts (items d ! i)"
    by (rule well_formed_nth [OF assms(2,3)])
  have co: "close_others this [0..<length (items d)] (int i) animate d = Inr ?d0"
    by (rule close_others_wf [OF assms(2)]) simp_all
  have nth0: "?its ! i = items d ! i" using assms(3) by simp
  have "?its[i := opened_item animate (items d ! i)] =
        map (\<lambda>j. if j = i then opened_item animate (items d ! j)
                   else if allowMultiple this then items d ! j
                   else closed_item animate (items d ! j))
          [0..<length (items d)]"
    using assms(1) by (intro nth_equalityI) (auto simp add: nth_list_update)
  then show ?thesis
    using assms(1,3) p co nth0
    by (auto simp add: open_def item_at_def has_parts_def update_item_def update_trigger_def
        update_content_def animateOpen_def dispatchEvent_def opened_item_def opened_event_def
        opened_state_def measured_def Let_def)
qed

lemma open_wf:
  assumes "well_formed d" and "i < length (items d)"
  shows "open this d (int i) animate = Inr (opened_state this d i animate)"
proof (cases "allowMultiple this")
  case True
  then show ?thesis
    by (rule open_multiple [OF _ assms(2) well_formed_nth [OF assms]])
next
  case False
  then show ?thesis
    by (rule open_single [OF _ assms])
qed

subsection \<open>When a call throws\<close>

lemma close_throws_TypeError:
  "close this d index animate = Inl (e, d') \<Longrightarrow> e = TypeError"
  by (auto simp add: close_def Let_def split: option.splits if_splits)

lemma close_others_throws_TypeError:
  "close_others this js index animate d = Inl (e, d') \<Longrightarrow> e = TypeError"
proof (induction js arbitrary: d)
  case Nil
  then show ?case by simp
next
  case (Cons j js)
  show ?case
  proof (cases "int j = index")
    case True
    with Cons show ?thesis by simp
  next
    case False
    show ?thesis
    proof (cases "close this d (int j) animate")
      case (Inl x)
      with False Cons.prems have "close this d (int j) animate = Inl (e, d')" by simp
      then show ?thesis by (rule close_throws_TypeError)
    next
      case (Inr d1)
      with False Cons.prems have "close_others this js index animate d1 = Inl (e, d')" by simp
      then show ?thesis by (rule Cons.IH)
    qed
  qed
qed

lemma close_missing_part:
  assumes "i < length (items d)" and "\<not> has_parts (items d ! i)"
  shows "\<exists>d'. close this d (int i) animate = Inl (TypeError, d')"
  using assms by (auto simp add: close_def item_at_def has_parts_def Let_def)

lemma open_missing_part:
  assumes "i < length (items d)" and "\<not> has_parts (items d ! i)"
  shows "\<exists>d'. open this d (int i) animate = Inl (TypeError, d')"
proof -
  let ?cascade = "if \<not> allowMultiple this
                 then close_others this [0..<length (items d)] (int i) animate d
                 else Inr d"
  have at: "item_at d (int i) = Some (i, items d ! i)"
    using assms(1) by (simp add: item_at_def)
  show ?thesis
  proof (cases ?cascade)
    case (Inl x)
    obtain e d' where x: "x = (e, d')" by (cases x)
    have "e = TypeError"
    proof (cases "allowMultiple this")
      case True
      with Inl show ?thesis by simp
    next
      case False
      with Inl x have "close_others this [0..<length (items d)] (int i) animate d = Inl (e, d')"
        by simp
      then show ?thesis by (rule close_others_throws_TypeError)
    qed
    with Inl x at show ?thesis by (simp add: open_def)
  next
    case (Inr d0)
    with at assms(2) show ?thesis
      by (auto simp add: open_def has_parts_def Let_def)
  qed
qed

lemma init_skips_missing_part:
  assumes "\<not> has_parts (items d ! i)"
  shows "init_items this gen (i # rest) d = init_items this gen rest d"
  using assms by (auto simp add: has_parts_def split: option.splits)

subsection \<open>When a call returns\<close>

lemma close_returns:
  assumes "close this d (int i) animate = Inr d'" and "i < length (items d)"
  shows "has_parts (items d ! i)" and "d' = closed_state this d i animate"
proof -
  show p: "has_parts (items d ! i)"
    using close_missing_part [OF assms(2), of this animate] assms(1) by auto
  show "d' = closed_state this d i animate"
    using close_wf [OF assms(2) p, of this animate] assms(1) by simp
qed

lemma close_others_returns:
  assumes "close_others this js index animate d = Inr d'"
    and "\<forall>j \<in> set js. j < length (items d)"
  shows "\<forall>j \<in> set js. int j \<noteq> index \<longrightarrow> has_parts (items d ! j)"
  using assms
proof (induction js arbitrary: d)
  case Nil
  then show ?case by simp
next
  case (Cons h js)
  show ?case
  proof (cases "int h = index")
    case True
    with Cons.prems have "close_others this js index animate d = Inr d'" by simp
    from Cons.IH [OF this] Cons.prems(2) True show ?thesis by simp
  next
    case False
    have h: "h < length (items d)" using Cons.prems(2) by simp
    from False Cons.prems(1) obtain d1 where
      c: "close this d (int h) animate = Inr d1"
      and r: "close_others this js index animate d1 = Inr d'"
      by (auto split: sum.splits)
    note ph = close_returns(1) [OF c h]
    note d1 = close_returns(2) [OF c h]
    have len: "\<forall>j \<in> set js. j < length (items d1)"
      using Cons.prems(2) d1 by simp
    have "\<forall>j \<in> set js. int j \<noteq> index \<longrightarrow> has_parts (items d1 ! j)"
      by (rule Cons.IH [OF r len])
    moreover have "\<forall>j \<in> set js. has_parts (items d1 ! j) = has_parts (items d ! j)"
      using Cons.prems(2) h d1 by (auto simp add: closed_state_nth)
    ultimately show ?thesis
      using ph by simp
  qed
qed

lemma open_returns:
  assumes "open this d (int i) animate = Inr d'" and "i < length (items d)"
  shows "has_parts (items d ! i)"
    and "\<not> allowMultiple this \<Longrightarrow> well_formed d"
    and "d' = opened_state this d i animate"
proof -
  show p: "has_parts (items d ! i)"
    using open_missing_part [OF assms(2), of this animate] assms(1) by auto
  have wf: "well_formed d" if one: "\<not> allowMultiple this"
  proof -
    have at: "item_at d (int i) = Some (i, items d ! i)"
      using assms(2) by (simp add: item_at_def)
    from assms(1) one at obtain d0 where
      "close_others this [0..<length (items d)] (int i) animate d = Inr d0"
      by (auto simp add: open_def split: sum.splits)
    from close_others_returns [OF this]
    have "\<forall>j < length (items d). j \<noteq> i \<longrightarrow> has_parts (items d ! j)"
      by simp
    with p show ?thesis
      by (auto simp add: well_formed_def list_all_length)
  qed
  then show "\<not> allowMultiple this \<Longrightarrow> well_formed d" .
  show "d' = opened_state this d i animate"
  proof (cases "allowMultiple this")
    case True
    from open_multiple [OF True assms(2) p, of animate] assms(1) show ?thesis
      by simp
  next
    case False
    from open_single [OF False wf [OF False] assms(2), of animate] assms(1) show ?thesis
      by simp
  qed
qed

subsection \<open>The order of the cascade\<close>

lemma close_keeps_others:
  assumes "j \<noteq> i"
  shows "length (items (after (close this d (int j) animate))) = length (items d) \<and>
         items (after (close this d (int j) animate)) ! i = items d ! i"
  using assms
  by (auto simp add: close_def item_at_def after_def update_item_def update_trigger_def
      update_content_def animateClose_def dispatchEvent_def Let_def
      split: option.splits)

lemma close_others_keeps_target:
  "length (items (after (close_others this js (int i) animate d))) = length (items d) \<and>
   items (after (close_others this js (int i) animate d)) ! i = items d ! i"
proof (induction js arbitrary: d)
  case Nil
  show ?case by (simp add: after_def)
next
  case (Cons j js)
  show ?case
  proof (cases "j = i")
    case True
    with Cons.IH [of d] show ?thesis by simp
  next
    case False
    note k = close_keeps_others [OF False, of this d animate]
    show ?thesis
    proof (cases "close this d (int j) animate")
      case (Inl x)
      with False k show ?thesis by (simp add: after_def)
    next
      case (Inr d1)
      with False k Cons.IH [of d1] show ?thesis by (simp add: after_def)
    qed
  qed
qed

lemma close_others_throws_missing:
  assumes "\<forall>j \<in> set js. j < length (items d)"
    and "\<exists>j \<in> set js. int j \<noteq> index \<and> \<not> has_parts (items d ! j)"
  shows "\<exists>d'. close_others this js index animate d = Inl (TypeError, d')"
proof (cases "close_others this js index animate d")
  case (Inl x)
  obtain e d' where x: "x = (e, d')" by (cases x)
  with Inl close_others_throws_TypeError [of this js index animate d e d'] show ?thesis
    by simp
next
  case (Inr d')
  from close_others_returns [OF Inr assms(1)] assms(2) show ?thesis by blast
qed


lemma close_others_parts:
  assumes "distinct js"
    and "\<forall>j\<in>set js. j < length (items d) \<and> (int j \<noteq> index \<longrightarrow> has_parts (items d ! j))"
  shows "close_others this js index animate d =
     Inr (d\<lparr>items := map (\<lambda>j. if j \<in> set js \<and> int j \<noteq> index
                               then closed_item animate (items d ! j) else items d ! j)
                       [0..<length (items d)],
            dispatched := dispatched d @ map (closed_event this) (others js index),
            frames := frames d @ (if animate then map CloseFrame (others js index) else [])\<rparr>)"
  using assms
proof (induction js arbitrary: d)
  case Nil
  have "map (\<lambda>j. items d ! j) [0..<length (items d)] = items d"
    by (simp add: map_nth)
  then show ?case by (simp add: others_def)
next
  case (Cons i js)
  show ?case
  proof (cases "int i = index")
    case True
    have "map (\<lambda>j. if j \<in> set js \<and> int j \<noteq> index
                     then closed_item animate (items d ! j) else items d ! j)
              [0..<length (items d)] =
          map (\<lambda>j. if j \<in> set (i # js) \<and> int j \<noteq> index
                     then closed_item animate (items d ! j) else items d ! j)
              [0..<length (items d)]"
      using True by auto
    with True Cons show ?thesis by (simp add: others_def)
  next
    case False
    let ?d1 = "closed_state this d i animate"
    have i: "i < length (items d)" and p: "has_parts (items d ! i)"
      using Cons.prems False by simp_all
    have c: "close this d (int i) animate = Inr ?d1"
      by (rule close_wf [OF i p])
    have rest: "\<forall>j\<in>set js. j < length (items ?d1) \<and>
        (int j \<noteq> index \<longrightarrow> has_parts (items ?d1 ! j))"
      using Cons.prems(2) by (auto simp add: closed_state_nth)
    have d: "distinct js" using Cons.prems(1) by simp
    have ih: "close_others this js index animate ?d1 =
       Inr (?d1\<lparr>items := map (\<lambda>j. if j \<in> set js \<and> int j \<noteq> index
                               then closed_item animate (items ?d1 ! j) else items ?d1 ! j)
                       [0..<length (items ?d1)],
            dispatched := dispatched ?d1 @ map (closed_event this) (others js index),
            frames := frames ?d1 @ (if animate then map CloseFrame (others js index) else [])\<rparr>)"
      by (rule Cons.IH [OF d rest])
    have its: "map (\<lambda>j. if j \<in> set js \<and> int j \<noteq> index
                       then closed_item animate (items ?d1 ! j) else items ?d1 ! j)
                [0..<length (items ?d1)] =
         map (\<lambda>j. if j \<in> set (i # js) \<and> int j \<noteq> index
                       then closed_item animate (items d ! j) else items d ! j)
                [0..<length (items d)]"
      using False Cons.prems(1) i by (auto simp add: closed_state_nth)
    show ?thesis
      using False c ih its by (simp add: others_def closed_state_def)
  qed
qed

lemma open_cascade_throws:
  assumes "i < length (items d)" and "\<not> allowMultiple this"
    and "\<exists>j < length (items d). j \<noteq> i \<and> \<not> has_parts (items d ! j)"
  shows "\<exists>d'. open this d (int i) animate = Inl (TypeError, d') \<and>
           length (items d') = length (items d) \<and> items d' ! i = items d ! i"
proof -
  have at: "item_at d (int i) = Some (i, items d ! i)"
    using assms(1) by (simp add: item_at_def)
  have "\<exists>j \<in> set [0..<length (items d)]. int j \<noteq> int i \<and> \<not> has_parts (items d ! j)"
    using assms(3) by auto
  then obtain d' where
    c: "close_others this [0..<length (items d)] (int i) animate d = Inl (TypeError, d')"
    using close_others_throws_missing [of "[0..<length (items d)]" d "int i" this animate]
    by auto
  have o: "open this d (int i) animate = Inl (TypeError, d')"
    using at assms(2) c by (simp add: open_def)
  from close_others_keeps_target [of this "[0..<length (items d)]" i animate d] c
  have "length (items d') = length (items d) \<and> items d' ! i = items d ! i"
    by (simp add: after_def)
  with o show ?thesis by blast
qed

lemma open_target_throws:
  assumes "i < length (items d)" and "\<not> allowMultiple this"
    and "\<forall>j < length (items d). j \<noteq> i \<longrightarrow> has_parts (items d ! j)"
    and "\<not> has_parts (items d ! i)"
  shows "\<exists>d'. open this d (int i) animate = Inl (TypeError, d') \<and>
           length (items d') = length (items d) \<and>
           (\<forall>j < length (items d). j \<noteq> i \<longrightarrow>
              items d' ! j = closed_item animate (items d ! j)) \<and>
           dispatched d' = dispatched d @
             map (closed_event this) (others [0..<length (items d)] (int i))"
proof -
  let ?n = "length (items d)"
  let ?d0 = "d\<lparr>items := map (\<lambda>j. if j \<in> set [0..<?n] \<and> int j \<noteq> int i
                               then closed_item animate (items d ! j) else items d ! j)
                       [0..<?n],
            dispatched := dispatched d @ map (closed_event this) (others [0..<?n] (int i)),
            frames := frames d @
              (if animate then map CloseFrame (others [0..<?n] (int i)) else [])\<rparr>"
  have at: "item_at d (int i) = Some (i, items d ! i)"
    using assms(1) by (simp add: item_at_def)
  have co: "close_others this [0..<?n] (int i) animate d = Inr ?d0"
    by (rule close_others_parts) (use assms(3) in auto)
  show ?thesis
    using at assms(1,2,4) co
    by (auto simp add: open_def has_parts_def update_item_def update_trigger_def Let_def
        nth_list_update)
qed

subsection \<open>What is seen of an item after a call\<close>

lemma opened_item_observed:
  assumes "has_parts it"
  shows "has_active_class (opened_item animate it) \<and>
     aria_expanded_attr (opened_item animate it) = Some ''true'' \<and>
     content_hidden (opened_item animate it) = Some False"
  using assms
  by (cases animate) (auto simp add: opened_item_def has_parts_def has_active_class_def
      aria_expanded_attr_def content_hidden_def classList_contains_def classList_add_def
      getAttribute_def setAttribute_def update_conv')

lemma closed_item_observed:
  assumes "has_parts it"
  shows "\<not> has_active_class (closed_item animate it) \<and>
     aria_expanded_attr (closed_item animate it) = Some ''false'' \<and>
     content_hidden (closed_item animate it) =
       (if animate then content_hidden it else Some True)"
  using assms
  by (cases animate) (auto simp add: closed_item_def has_parts_def has_active_class_def
      aria_expanded_attr_def content_hidden_def classList_contains_def classList_remove_def
      getAttribute_def setAttribute_def update_conv')

lemma opened_item_content_attr:
  "content_attr (opened_item animate it) name = content_attr it name"
  by (cases "content it") (auto simp add: opened_item_def content_attr_def)

lemma aria_expanded_opened:
  "has_parts it \<Longrightarrow> aria_expanded (opened_item animate it)"
  by (auto simp add: aria_expanded_def opened_item_def has_parts_def getAttribute_def
      setAttribute_def update_conv')

lemma aria_expanded_closed: "\<not> aria_expanded (closed_item animate it)"
  by (cases "trigger it")
    (auto simp add: aria_expanded_def closed_item_def getAttribute_def setAttribute_def
      update_conv')

lemma others_two: "others [0..<2] 0 = [1]"
  by (simp add: others_def upt_rec)

subsection \<open>The attribute and the state machine\<close>

lemma length_spec_cascade [simp]: "length (spec_cascade k index animate sts) = length sts"
  by (induction sts arbitrary: k) simp_all

lemma nth_spec_cascade:
  "j < length sts \<Longrightarrow>
   spec_cascade k index animate sts ! j =
     (if int (k + j) \<noteq> index \<and> currently_open (sts ! j)
      then spec_close_item animate (sts ! j) else sts ! j)"
proof (induction sts arbitrary: k j)
  case Nil
  then show ?case by simp
next
  case (Cons st sts)
  show ?case
  proof (cases j)
    case 0
    then show ?thesis by simp
  next
    case (Suc j')
    with Cons.prems have "j' < length sts" by simp
    from Cons.IH [OF this, of "Suc k"] Suc show ?thesis by simp
  qed
qed

lemma spec_item_open [simp]:
  "currently_open (spec_open_item animate st)" "\<not> currently_open (spec_close_item animate st)"
  by (simp_all add: currently_open_def spec_open_item_def spec_close_item_def)

text \<open>
  Claim C1. Take the states of the specification for the items of a widget, such that every
  trigger has \<^verbatim>\<open>aria-expanded == "true"\<close> exactly when its item is Opening or Open. Whenever
  \<open>open\<close> or \<open>close\<close> on an index in range returns, with any \<open>animate\<close>, the same holds
  in the state returned for the states that the specification's \<open>open\<close> and \<open>close\<close>
  give. The attribute is written within the call: every frame requested before or by the
  call is still pending in the state returned. On a widget whose items all have a trigger
  and a content both calls do return.
\<close>

theorem aria_expanded_tracks_state:
  assumes "tracks d sts" and "i < length (items d)"
  shows "(well_formed d \<longrightarrow>
            (\<exists>d'. open this d (int i) animate = Inr d') \<and>
            (\<exists>d'. close this d (int i) animate = Inr d')) \<and>
         (\<forall>d'. open this d (int i) animate = Inr d' \<longrightarrow>
            tracks d' (spec_open (allowMultiple this) sts (int i) animate) \<and>
            (\<exists>requested. frames d' = frames d @ requested)) \<and>
         (\<forall>d'. close this d (int i) animate = Inr d' \<longrightarrow>
            tracks d' (spec_close sts (int i) animate) \<and>
            (\<exists>requested. frames d' = frames d @ requested))"
proof -
  have len: "length sts = length (items d)"
    using assms(1) by (simp add: tracks_def list_all2_lengthD)
  have tr: "\<And>j. j < length (items d) \<Longrightarrow> aria_expanded (items d ! j) = currently_open (sts ! j)"
    using assms(1) by (simp add: tracks_def list_all2_conv_all_nth)
  have ret: "well_formed d \<longrightarrow>
            (\<exists>d'. open this d (int i) animate = Inr d') \<and>
            (\<exists>d'. close this d (int i) animate = Inr d')"
    using open_wf [OF _ assms(2), of this animate]
      close_wf [OF assms(2) well_formed_nth [OF _ assms(2)], of this animate]
    by blast
  have o: "tracks d' (spec_open (allowMultiple this) sts (int i) animate) \<and>
            (\<exists>requested. frames d' = frames d @ requested)"
    if "open this d (int i) animate = Inr d'" for d'
  proof -
    note r = open_returns [OF that assms(2)]
    have "tracks (opened_state this d i animate)
            (spec_open (allowMultiple this) sts (int i) animate)"
      unfolding tracks_def list_all2_conv_all_nth
      using assms(2) len tr r(1)
      by (auto simp add: spec_open_def Let_def nth_list_update nth_spec_cascade
          opened_state_nth aria_expanded_opened aria_expanded_closed)
    then show ?thesis
      unfolding r(3) by simp
  qed
  have c: "tracks d' (spec_close sts (int i) animate) \<and>
            (\<exists>requested. frames d' = frames d @ requested)"
    if "close this d (int i) animate = Inr d'" for d'
  proof -
    note r = close_returns [OF that assms(2)]
    have "tracks (closed_state this d i animate) (spec_close sts (int i) animate)"
      unfolding tracks_def list_all2_conv_all_nth
      using assms(2) len tr
      by (auto simp add: spec_close_def nth_list_update closed_state_nth aria_expanded_closed)
    then show ?thesis
      unfolding r(2) by simp
  qed
  from ret o c show ?thesis by blast
qed

theorem aria_expanded_tracks_state_witness:
  "well_formed constructed \<and> tracks constructed [Closed, Open] \<and>
   0 < length (items constructed) \<and>
   (\<exists>d'. open single constructed (int 0) True = Inr d' \<and> tracks d' [Opening, Closing]) \<and>
   (\<exists>d'. close single constructed (int 0) True = Inr d' \<and> tracks d' [Closed, Open])"
proof -
  have wf: "well_formed constructed" and tr: "tracks constructed [Closed, Open]"
    and i: "0 < length (items constructed)"
    and so: "spec_open (allowMultiple single) [Closed, Open] (int 0) True = [Opening, Closing]"
    and sc: "spec_close [Closed, Open] (int 0) True = [Closed, Open]"
    by code_simp+
  show ?thesis
    using wf tr i aria_expanded_tracks_state [OF tr i, of single True]
    unfolding so sc by blast
qed

subsection \<open>The cascade of open\<close>

text \<open>
  Claim C2. Whenever \<open>open\<close> on an index in range returns (it does on a widget whose items
  all have a trigger and a content), in the state it returns: the target item has the
  active class, \<^verbatim>\<open>aria-expanded = "true"\<close> and a content that is not hidden; with
  \<open>allowMultiple\<close> false every other item has lost the active class and has
  \<^verbatim>\<open>aria-expanded = "false"\<close>, its content hidden at once when \<open>animate\<close> is false and
  left to the transition (a close frame requested for it) when \<open>animate\<close> is true, so the
  closes take the \<open>animate\<close> flag of the call; with \<open>allowMultiple\<close> true every other
  item is exactly as before. The events and the frames of the closes come before the event
  and the frame of the target.

  The other items are closed first, and the target is written only after: the states that
  a throw leaves show the order. With \<open>allowMultiple\<close> false, when another item lacks a
  trigger or a content the call throws in the cascade, and the target item is still exactly
  as it was before the call; when all other items have both and the target lacks one, the
  call throws at the target, and by then every other item has been closed with the
  \<open>animate\<close> flag of the call and its \<^verbatim>\<open>closed\<close> event dispatched, no \<^verbatim>\<open>opened\<close> event
  following.
\<close>

theorem open_cascade:
  assumes "i < length (items d)"
  shows "(well_formed d \<longrightarrow> (\<exists>d'. open this d (int i) animate = Inr d')) \<and>
     (\<forall>d'. open this d (int i) animate = Inr d' \<longrightarrow>
        length (items d') = length (items d) \<and>
        has_active_class (items d' ! i) \<and>
        aria_expanded_attr (items d' ! i) = Some ''true'' \<and>
        content_hidden (items d' ! i) = Some False \<and>
        (\<forall>j < length (items d). j \<noteq> i \<longrightarrow>
           (if allowMultiple this then items d' ! j = items d ! j
            else \<not> has_active_class (items d' ! j) \<and>
                 aria_expanded_attr (items d' ! j) = Some ''false'' \<and>
                 content_hidden (items d' ! j) =
                   (if animate then content_hidden (items d ! j) else Some True))) \<and>
        dispatched d' = dispatched d @
           (if allowMultiple this then []
            else map (closed_event this) (others [0..<length (items d)] (int i))) @
           [opened_event this i] \<and>
        frames d' = frames d @
           (if allowMultiple this \<or> \<not> animate then []
            else map CloseFrame (others [0..<length (items d)] (int i))) @
           (if animate then [OpenFrame i (measured (items d ! i))] else [])) \<and>
     (\<not> allowMultiple this \<and>
      (\<exists>j < length (items d). j \<noteq> i \<and> \<not> has_parts (items d ! j)) \<longrightarrow>
        (\<exists>d'. open this d (int i) animate = Inl (TypeError, d') \<and>
           length (items d') = length (items d) \<and> items d' ! i = items d ! i)) \<and>
     (\<not> allowMultiple this \<and>
      (\<forall>j < length (items d). j \<noteq> i \<longrightarrow> has_parts (items d ! j)) \<and>
      \<not> has_parts (items d ! i) \<longrightarrow>
        (\<exists>d'. open this d (int i) animate = Inl (TypeError, d') \<and>
           length (items d') = length (items d) \<and>
           (\<forall>j < length (items d). j \<noteq> i \<longrightarrow>
              \<not> has_active_class (items d' ! j) \<and>
              aria_expanded_attr (items d' ! j) = Some ''false'' \<and>
              content_hidden (items d' ! j) =
                (if animate then content_hidden (items d ! j) else Some True)) \<and>
           dispatched d' = dispatched d @
             map (closed_event this) (others [0..<length (items d)] (int i))))"
proof -
  have ret: "well_formed d \<longrightarrow> (\<exists>d'. open this d (int i) animate = Inr d')"
    using open_wf [OF _ assms, of this animate] by blast
  have post: "length (items d') = length (items d) \<and>
        has_active_class (items d' ! i) \<and>
        aria_expanded_attr (items d' ! i) = Some ''true'' \<and>
        content_hidden (items d' ! i) = Some False \<and>
        (\<forall>j < length (items d). j \<noteq> i \<longrightarrow>
           (if allowMultiple this then items d' ! j = items d ! j
            else \<not> has_active_class (items d' ! j) \<and>
                 aria_expanded_attr (items d' ! j) = Some ''false'' \<and>
                 content_hidden (items d' ! j) =
                   (if animate then content_hidden (items d ! j) else Some True))) \<and>
        dispatched d' = dispatched d @
           (if allowMultiple this then []
            else map (closed_event this) (others [0..<length (items d)] (int i))) @
           [opened_event this i] \<and>
        frames d' = frames d @
           (if allowMultiple this \<or> \<not> animate then []
            else map CloseFrame (others [0..<length (items d)] (int i))) @
           (if animate then [OpenFrame i (measured (items d ! i))] else [])"
    if "open this d (int i) animate = Inr d'" for d'
  proof -
    note r = open_returns [OF that assms]
    note target = opened_item_observed [OF r(1), of animate]
    have other: "\<forall>j < length (items d).
       \<not> has_active_class (closed_item animate (items d ! j)) \<and>
       aria_expanded_attr (closed_item animate (items d ! j)) = Some ''false'' \<and>
       content_hidden (closed_item animate (items d ! j)) =
         (if animate then content_hidden (items d ! j) else Some True)"
      if "\<not> allowMultiple this"
      using well_formed_nth [OF r(2) [OF that]] closed_item_observed by blast
    show ?thesis
      unfolding r(3) using assms target other
      by (cases "allowMultiple this") (simp_all add: opened_state_nth)
  qed
  have cascade_first: "\<exists>d'. open this d (int i) animate = Inl (TypeError, d') \<and>
           length (items d') = length (items d) \<and> items d' ! i = items d ! i"
    if "\<not> allowMultiple this \<and>
        (\<exists>j < length (items d). j \<noteq> i \<and> \<not> has_parts (items d ! j))"
    using open_cascade_throws [OF assms, of this animate] that by blast
  have target_last: "\<exists>d'. open this d (int i) animate = Inl (TypeError, d') \<and>
           length (items d') = length (items d) \<and>
           (\<forall>j < length (items d). j \<noteq> i \<longrightarrow>
              \<not> has_active_class (items d' ! j) \<and>
              aria_expanded_attr (items d' ! j) = Some ''false'' \<and>
              content_hidden (items d' ! j) =
                (if animate then content_hidden (items d ! j) else Some True)) \<and>
           dispatched d' = dispatched d @
             map (closed_event this) (others [0..<length (items d)] (int i))"
    if h: "\<not> allowMultiple this \<and>
        (\<forall>j < length (items d). j \<noteq> i \<longrightarrow> has_parts (items d ! j)) \<and>
        \<not> has_parts (items d ! i)"
  proof -
    from h have one: "\<not> allowMultiple this"
      and rest: "\<forall>j < length (items d). j \<noteq> i \<longrightarrow> has_parts (items d ! j)"
      and bare: "\<not> has_parts (items d ! i)"
      by simp_all
    from open_target_throws [OF assms one rest bare, of animate] obtain d' where
      o: "open this d (int i) animate = Inl (TypeError, d')"
      and l: "length (items d') = length (items d)"
      and c: "\<forall>j < length (items d). j \<noteq> i \<longrightarrow>
              items d' ! j = closed_item animate (items d ! j)"
      and e: "dispatched d' = dispatched d @
             map (closed_event this) (others [0..<length (items d)] (int i))"
      by blast
    have "\<forall>j < length (items d). j \<noteq> i \<longrightarrow>
              \<not> has_active_class (items d' ! j) \<and>
              aria_expanded_attr (items d' ! j) = Some ''false'' \<and>
              content_hidden (items d' ! j) =
                (if animate then content_hidden (items d ! j) else Some True)"
      using c rest closed_item_observed [of _ animate] by simp
    with o l e show ?thesis by blast
  qed
  from ret post cascade_first target_last show ?thesis by blast
qed

theorem open_cascade_witness:
  "well_formed constructed \<and> 0 < length (items constructed) \<and>
   has_active_class (items constructed ! 1) \<and>
   (\<exists>d'. open single constructed (int 0) True = Inr d' \<and>
      has_active_class (items d' ! 0) \<and> aria_expanded_attr (items d' ! 0) = Some ''true'' \<and>
      \<not> has_active_class (items d' ! 1) \<and> aria_expanded_attr (items d' ! 1) = Some ''false'') \<and>
   well_formed constructed_multiple \<and> 0 < length (items constructed_multiple) \<and>
   accordionInstance constructed_multiple = Some multiple \<and>
   has_active_class (items constructed_multiple ! 1) \<and>
   (\<exists>d'. open multiple constructed_multiple (int 0) True = Inr d' \<and>
      has_active_class (items d' ! 0) \<and> has_active_class (items d' ! 1) \<and>
      aria_expanded_attr (items d' ! 1) = Some ''true'') \<and>
   length (items constructed_half) = 2 \<and> has_parts (items constructed_half ! 0) \<and>
   \<not> has_parts (items constructed_half ! 1) \<and>
   (\<exists>d'. open single constructed_half (int 0) True = Inl (TypeError, d') \<and>
      items d' ! 0 = items constructed_half ! 0) \<and>
   (\<exists>d'. open single constructed_half (int 1) True = Inl (TypeError, d') \<and>
      aria_expanded_attr (items d' ! 0) = Some ''false'' \<and>
      dispatched d' = dispatched constructed_half @ [closed_event single 0])"
proof -
  have wf: "well_formed constructed" and i: "0 < length (items constructed)"
    and j: "1 < length (items constructed)" and one: "\<not> allowMultiple single"
    and a: "has_active_class (items constructed ! 1)"
    by code_simp+
  note c = open_cascade [OF i, of single True]
  from c wf obtain d' where o: "open single constructed (int 0) True = Inr d'"
    by blast
  with c have t: "has_active_class (items d' ! 0)"
      "aria_expanded_attr (items d' ! 0) = Some ''true''"
    and r: "\<forall>j < length (items constructed). j \<noteq> 0 \<longrightarrow>
        (if allowMultiple single then items d' ! j = items constructed ! j
         else \<not> has_active_class (items d' ! j) \<and>
              aria_expanded_attr (items d' ! j) = Some ''false'' \<and>
              content_hidden (items d' ! j) =
                (if True then content_hidden (items constructed ! j) else Some True))"
    by blast+
  from r j one have s1: "\<not> has_active_class (items d' ! 1) \<and>
      aria_expanded_attr (items d' ! 1) = Some ''false''"
    by auto
  have wfm: "well_formed constructed_multiple" and im: "0 < length (items constructed_multiple)"
    and jm: "1 < length (items constructed_multiple)" and many: "allowMultiple multiple"
    and m: "accordionInstance constructed_multiple = Some multiple"
    and am: "has_active_class (items constructed_multiple ! 1)"
      "aria_expanded_attr (items constructed_multiple ! 1) = Some ''true''"
    by code_simp+
  note cm = open_cascade [OF im, of multiple True]
  from cm wfm obtain e' where om: "open multiple constructed_multiple (int 0) True = Inr e'"
    by blast
  with cm have tm: "has_active_class (items e' ! 0)"
    and rm: "\<forall>j < length (items constructed_multiple). j \<noteq> 0 \<longrightarrow>
        (if allowMultiple multiple then items e' ! j = items constructed_multiple ! j
         else \<not> has_active_class (items e' ! j) \<and>
              aria_expanded_attr (items e' ! j) = Some ''false'' \<and>
              content_hidden (items e' ! j) =
                (if True then content_hidden (items constructed_multiple ! j) else Some True))"
    by blast+
  from rm jm many have "items e' ! 1 = items constructed_multiple ! 1"
    by auto
  with am have s2: "has_active_class (items e' ! 1) \<and>
      aria_expanded_attr (items e' ! 1) = Some ''true''"
    by simp
  have lh: "length (items constructed_half) = 2"
    and p0: "has_parts (items constructed_half ! 0)"
    and p1: "\<not> has_parts (items constructed_half ! 1)"
    and os: "others [0..<length (items constructed_half)] (int 1) = [0]"
    by code_simp+
  have i0: "0 < length (items constructed_half)" and i1: "1 < length (items constructed_half)"
    using lh by simp_all
  have ex1: "\<exists>j < length (items constructed_half). j \<noteq> 0 \<and> \<not> has_parts (items constructed_half ! j)"
    using i1 p1 by auto
  have all0: "\<forall>j < length (items constructed_half). j \<noteq> 1 \<longrightarrow>
      has_parts (items constructed_half ! j)"
    using lh p0 by (auto simp add: less_Suc_eq numeral_2_eq_2)
  from open_cascade [OF i0, of single True] one ex1
  have h0: "\<exists>d'. open single constructed_half (int 0) True = Inl (TypeError, d') \<and>
      items d' ! 0 = items constructed_half ! 0"
    by blast
  from open_cascade [OF i1, of single True] one all0 p1 obtain f' where
    of1: "open single constructed_half (int 1) True = Inl (TypeError, f')"
    and cf: "\<forall>j < length (items constructed_half). j \<noteq> 1 \<longrightarrow>
              \<not> has_active_class (items f' ! j) \<and>
              aria_expanded_attr (items f' ! j) = Some ''false'' \<and>
              content_hidden (items f' ! j) =
                (if True then content_hidden (items constructed_half ! j) else Some True)"
    and ef: "dispatched f' = dispatched constructed_half @
       map (closed_event single) (others [0..<length (items constructed_half)] (int 1))"
    by blast
  from cf i0 have "aria_expanded_attr (items f' ! 0) = Some ''false''"
    by auto
  with of1 ef os
  have h1: "\<exists>d'. open single constructed_half (int 1) True = Inl (TypeError, d') \<and>
      aria_expanded_attr (items d' ! 0) = Some ''false'' \<and>
      dispatched d' = dispatched constructed_half @ [closed_event single 0]"
    by simp
  from wf i a o t s1 wfm im m am(1) om tm s2 lh p0 p1 h0 h1 show ?thesis by blast
qed

subsection \<open>Out-of-range indices\<close>

text \<open>
  Claim C3. For an index that is not one of \<open>0 .. length - 1\<close> (for example \<open>99\<close>, or
  \<open>-1\<close>), \<open>open\<close> and \<open>close\<close> return without throwing and leave the whole state as it
  was: no event is dispatched, no frame is requested, and the classes, attributes and hidden
  flags of all items are unchanged.
\<close>

theorem out_of_range_ignored:
  assumes "\<not> (0 \<le> index \<and> index < int (length (items d)))"
  shows "open this d index animate = Inr d \<and> close this d index animate = Inr d"
proof -
  have "item_at d index = None"
    using assms by (simp add: item_at_def)
  then show ?thesis
    by (simp add: open_def close_def)
qed

theorem out_of_range_ignored_witness:
  "\<not> (0 \<le> (99::int) \<and> (99::int) < int (length (items constructed))) \<and>
   \<not> (0 \<le> (- 1::int) \<and> (- 1::int) < int (length (items constructed))) \<and>
   open single constructed 99 True = Inr constructed \<and>
   close single constructed (- 1) True = Inr constructed"
proof -
  have h: "\<not> (0 \<le> (99::int) \<and> (99::int) < int (length (items constructed)))"
    by code_simp
  have g: "\<not> (0 \<le> (- 1::int) \<and> (- 1::int) < int (length (items constructed)))"
    by simp
  show ?thesis
    using h g out_of_range_ignored [OF h, of single True]
      out_of_range_ignored [OF g, of single True]
    by simp
qed

subsection \<open>Calling twice\<close>

lemma setAttribute_twice:
  "setAttribute (setAttribute al name v) name v = setAttribute al name v"
  by (simp add: setAttribute_def update_triv update_conv')

lemma classList_add_twice: "classList_add (classList_add cl c) c = classList_add cl c"
  by (simp add: classList_add_def)

lemma classList_remove_twice: "classList_remove (classList_remove cl c) c = classList_remove cl c"
  by (simp add: classList_remove_def)

lemma observe_opened_twice:
  "observe (opened_item animate (opened_item animate it)) = observe (opened_item animate it)"
  by (cases "trigger it"; cases "content it")
    (simp_all add: observe_def opened_item_def setAttribute_twice classList_add_twice)

lemma observe_closed_twice:
  "observe (closed_item animate (closed_item animate it)) = observe (closed_item animate it)"
  by (cases "trigger it"; cases "content it")
    (simp_all add: observe_def closed_item_def setAttribute_twice classList_remove_twice)

lemma observable_opened_twice:
  assumes "i < length (items d)"
  shows "observable (opened_state this (opened_state this d i animate) i animate) =
           observable (opened_state this d i animate)"
  unfolding observable_def
  by (rule nth_equalityI)
    (auto simp add: opened_state_nth observe_opened_twice observe_closed_twice)

lemma observable_closed_twice:
  assumes "i < length (items d)"
  shows "observable (closed_state this (closed_state this d i animate) i animate) =
           observable (closed_state this d i animate)"
  unfolding observable_def
  by (rule nth_equalityI) (auto simp add: closed_state_nth observe_closed_twice)

text \<open>
  Claim C4, as the code has it. Whenever \<open>open(i)\<close> on an index in range returns and
  then returns again (it does on a widget whose items all have a trigger and a content),
  the second call leaves the classes, attributes and hidden flags of all items as the
  first call left them, and so for \<open>close(i)\<close>. The second call is not a no-op, though:
  the code has no test for an item already in the requested state, and the second call
  dispatches its events again (\<^verbatim>\<open>opened\<close>, and a \<^verbatim>\<open>closed\<close> for every other item when
  \<open>allowMultiple\<close> is false; \<^verbatim>\<open>closed\<close> for \<open>close\<close>).
\<close>

theorem twice_same_observable:
  assumes "i < length (items d)"
  shows "(well_formed d \<longrightarrow>
            (\<exists>d1 d2. open this d (int i) animate = Inr d1 \<and>
               open this d1 (int i) animate = Inr d2) \<and>
            (\<exists>d1 d2. close this d (int i) animate = Inr d1 \<and>
               close this d1 (int i) animate = Inr d2)) \<and>
         (\<forall>d1 d2. open this d (int i) animate = Inr d1 \<and>
               open this d1 (int i) animate = Inr d2 \<longrightarrow>
            observable d2 = observable d1 \<and>
            dispatched d2 = dispatched d1 @
              (if allowMultiple this then []
               else map (closed_event this) (others [0..<length (items d)] (int i))) @
              [opened_event this i]) \<and>
         (\<forall>d1 d2. close this d (int i) animate = Inr d1 \<and>
               close this d1 (int i) animate = Inr d2 \<longrightarrow>
            observable d2 = observable d1 \<and>
            dispatched d2 = dispatched d1 @ [closed_event this i])"
proof -
  have ret: "(\<exists>d1 d2. open this d (int i) animate = Inr d1 \<and>
               open this d1 (int i) animate = Inr d2) \<and>
            (\<exists>d1 d2. close this d (int i) animate = Inr d1 \<and>
               close this d1 (int i) animate = Inr d2)"
    if wf: "well_formed d"
  proof -
    let ?o = "opened_state this d i animate" and ?c = "closed_state this d i animate"
    have "open this d (int i) animate = Inr ?o"
      by (rule open_wf [OF wf assms])
    moreover have "open this ?o (int i) animate = Inr (opened_state this ?o i animate)"
      by (rule open_wf) (simp_all add: wf assms)
    moreover have "close this d (int i) animate = Inr ?c"
      by (rule close_wf [OF assms well_formed_nth [OF wf assms]])
    moreover have "close this ?c (int i) animate = Inr (closed_state this ?c i animate)"
      by (rule close_wf) (simp_all add: assms closed_state_nth well_formed_nth [OF wf assms])
    ultimately show ?thesis by blast
  qed
  have o: "observable d2 = observable d1 \<and>
            dispatched d2 = dispatched d1 @
              (if allowMultiple this then []
               else map (closed_event this) (others [0..<length (items d)] (int i))) @
              [opened_event this i]"
    if "open this d (int i) animate = Inr d1 \<and> open this d1 (int i) animate = Inr d2"
    for d1 d2
  proof -
    from that have o1: "open this d (int i) animate = Inr d1"
      and o2: "open this d1 (int i) animate = Inr d2" by simp_all
    note d1 = open_returns(3) [OF o1 assms]
    have i1: "i < length (items d1)" using assms d1 by simp
    note d2 = open_returns(3) [OF o2 i1]
    show ?thesis
      unfolding d2 unfolding d1 using observable_opened_twice [OF assms] by simp
  qed
  have c: "observable d2 = observable d1 \<and>
            dispatched d2 = dispatched d1 @ [closed_event this i]"
    if "close this d (int i) animate = Inr d1 \<and> close this d1 (int i) animate = Inr d2"
    for d1 d2
  proof -
    from that have c1: "close this d (int i) animate = Inr d1"
      and c2: "close this d1 (int i) animate = Inr d2" by simp_all
    note d1 = close_returns(2) [OF c1 assms]
    have i1: "i < length (items d1)" using assms d1 by simp
    note d2 = close_returns(2) [OF c2 i1]
    show ?thesis
      unfolding d2 unfolding d1 using observable_closed_twice [OF assms] by simp
  qed
  from ret o c show ?thesis by blast
qed

theorem twice_same_observable_witness:
  "well_formed constructed \<and> 1 < length (items constructed) \<and>
   (\<exists>d1 d2. open single constructed (int 1) False = Inr d1 \<and>
      open single d1 (int 1) False = Inr d2 \<and> observable d2 = observable d1) \<and>
   (\<exists>d1 d2. close single constructed (int 1) False = Inr d1 \<and>
      close single d1 (int 1) False = Inr d2 \<and> observable d2 = observable d1)"
proof -
  have wf: "well_formed constructed" and i: "1 < length (items constructed)"
    by code_simp+
  show ?thesis
    using wf i twice_same_observable [OF i, of single False] by blast
qed

text \<open>
  The claim as written fails: item 1 of the constructed widget is open, with no frame
  pending, and \<open>open(1, false)\<close> does not return the state it was given: it dispatches
  \<^verbatim>\<open>closed\<close> for item 0 and \<^verbatim>\<open>opened\<close> for item 1 again. With the default
  \<open>animate = true\<close> it also rewinds the inline height of the open content to
  \<^verbatim>\<open>0px\<close> for a new transition.
\<close>

theorem open_not_noop_counterexample:
  "aria_expanded (items constructed ! 1) \<and>
   content_hidden (items constructed ! 1) = Some False \<and>
   frames constructed = [] \<and>
   open single constructed 1 False \<noteq> Inr constructed \<and>
   length (dispatched (after (open single constructed 1 False))) =
     length (dispatched constructed) + 2 \<and>
   map_option style_height (content (items constructed ! 1)) = Some '''' \<and>
   map_option style_height (content (items (after (open single constructed 1 True)) ! 1)) =
     Some ''0px''"
  by code_simp

subsection \<open>Calls without animation\<close>

text \<open>
  Claim C5, as the code has it. Whenever \<open>close(i, false)\<close> on an index in range returns,
  the content of item \<open>i\<close> is hidden; whenever \<open>open(i, false)\<close> returns, the content of
  item \<open>i\<close> is not hidden, and its attribute \<^verbatim>\<open>aria-hidden\<close> is as it was before the
  call: \<open>open\<close> does not write it. On a widget whose items all have a trigger and a
  content both calls do return.
\<close>

theorem non_animated_commit:
  assumes "i < length (items d)"
  shows "(well_formed d \<longrightarrow>
            (\<exists>d'. close this d (int i) False = Inr d') \<and>
            (\<exists>d'. open this d (int i) False = Inr d')) \<and>
         (\<forall>d'. close this d (int i) False = Inr d' \<longrightarrow>
            content_hidden (items d' ! i) = Some True) \<and>
         (\<forall>d'. open this d (int i) False = Inr d' \<longrightarrow>
            content_hidden (items d' ! i) = Some False \<and>
            content_attr (items d' ! i) ''aria-hidden'' =
              content_attr (items d ! i) ''aria-hidden'')"
proof -
  have ret: "well_formed d \<longrightarrow>
            (\<exists>d'. close this d (int i) False = Inr d') \<and>
            (\<exists>d'. open this d (int i) False = Inr d')"
    using open_wf [OF _ assms, of this False]
      close_wf [OF assms well_formed_nth [OF _ assms], of this False]
    by blast
  have c: "content_hidden (items d' ! i) = Some True"
    if "close this d (int i) False = Inr d'" for d'
  proof -
    note r = close_returns [OF that assms]
    show ?thesis
      unfolding r(2) using assms closed_item_observed [OF r(1), of False]
      by (simp add: closed_state_nth)
  qed
  have o: "content_hidden (items d' ! i) = Some False \<and>
            content_attr (items d' ! i) ''aria-hidden'' =
              content_attr (items d ! i) ''aria-hidden''"
    if "open this d (int i) False = Inr d'" for d'
  proof -
    note r = open_returns [OF that assms]
    show ?thesis
      unfolding r(3) using assms opened_item_observed [OF r(1), of False]
      by (simp add: opened_state_nth opened_item_content_attr)
  qed
  from ret c o show ?thesis by blast
qed

theorem non_animated_commit_witness:
  "well_formed constructed_marked \<and> 0 < length (items constructed_marked) \<and>
   (\<exists>d'. close single constructed_marked (int 0) False = Inr d' \<and>
            content_hidden (items d' ! 0) = Some True) \<and>
   (\<exists>d'. open single constructed_marked (int 0) False = Inr d' \<and>
            content_hidden (items d' ! 0) = Some False \<and>
            content_attr (items d' ! 0) ''aria-hidden'' = Some ''true'')"
proof -
  have wf: "well_formed constructed_marked" and i: "0 < length (items constructed_marked)"
    and a: "content_attr (items constructed_marked ! 0) ''aria-hidden'' = Some ''true''"
    by code_simp+
  note c = non_animated_commit [OF i, of single]
  from c wf obtain d1 d2 where
    "close single constructed_marked (int 0) False = Inr d1"
    "open single constructed_marked (int 0) False = Inr d2"
    by blast
  with c a wf i show ?thesis by simp
qed

text \<open>
  The claim as written fails: on markup whose content carries \<^verbatim>\<open>aria-hidden="true"\<close>,
  \<open>open(0, false)\<close> returns with the content not hidden and the attribute still
  \<^verbatim>\<open>"true"\<close>, not \<^verbatim>\<open>"false"\<close>.
\<close>

theorem aria_hidden_counterexample:
  "\<not> isl (open single constructed_marked 0 False) \<and>
   content_hidden (items (after (open single constructed_marked 0 False)) ! 0) = Some False \<and>
   content_attr (items (after (open single constructed_marked 0 False)) ! 0) ''aria-hidden''
     \<noteq> Some ''false''"
  by code_simp

subsection \<open>The events of a cascade\<close>

text \<open>
  Claim C6. On a widget of two items with \<open>allowMultiple\<close> false, whenever the call
  \<open>open(0)\<close> returns (it does when both items have a trigger and a content) it has
  dispatched exactly two events: first \<^verbatim>\<open>ds-accordion:closed\<close> carrying item 1, then
  \<^verbatim>\<open>ds-accordion:opened\<close> carrying item 0. This holds in every state of the two items, so
  in the one where item 1 is open and item 0 is closed.
\<close>

theorem open_event_contract:
  assumes "length (items d) = 2" and "\<not> allowMultiple this"
  shows "(well_formed d \<longrightarrow> (\<exists>d'. open this d 0 animate = Inr d')) \<and>
         (\<forall>d'. open this d 0 animate = Inr d' \<longrightarrow>
            dispatched d' = dispatched d @ [closed_event this 1, opened_event this 0])"
proof -
  have i: "0 < length (items d)" using assms(1) by simp
  have ret: "well_formed d \<longrightarrow> (\<exists>d'. open this d 0 animate = Inr d')"
    using open_wf [OF _ i, of this animate] by simp
  have post: "dispatched d' = dispatched d @ [closed_event this 1, opened_event this 0]"
    if "open this d 0 animate = Inr d'" for d'
  proof -
    from that have "open this d (int 0) animate = Inr d'" by simp
    note r = open_returns(3) [OF this i]
    show ?thesis
      unfolding r using assms by (simp add: others_two)
  qed
  from ret post show ?thesis by blast
qed

theorem open_event_contract_witness:
  "well_formed constructed \<and> length (items constructed) = 2 \<and> \<not> allowMultiple single \<and>
   aria_expanded (items constructed ! 1) \<and> \<not> aria_expanded (items constructed ! 0) \<and>
   (\<exists>d'. open single constructed 0 True = Inr d' \<and>
      dispatched d' = dispatched constructed @ [closed_event single 1, opened_event single 0])"
proof -
  have wf: "well_formed constructed" and len: "length (items constructed) = 2"
    and one: "\<not> allowMultiple single"
    and st: "aria_expanded (items constructed ! 1)" "\<not> aria_expanded (items constructed ! 0)"
    by code_simp+
  show ?thesis
    using wf len one st open_event_contract [OF len one, of True] by blast
qed

subsection \<open>The end of a close transition\<close>

lemma update_content_nth:
  assumes "i < length (items d)"
  shows "items (update_content i f d) ! i =
           (items d ! i)\<lparr>content := map_option f (content (items d ! i))\<rparr>"
    and "length (items (update_content i f d)) = length (items d)"
  using assms by (simp_all add: update_content_def update_item_def)

lemma run_handler_item:
  assumes "i < length (items d)"
  shows "length (items (run_handler i h d)) = length (items d)"
    and "aria_expanded (items (run_handler i h d) ! i) = aria_expanded (items d ! i)"
    and "(content (items (run_handler i h d) ! i) = None) = (content (items d ! i) = None)"
    and "content_hidden (items (run_handler i h d) ! i) =
           (if h = CloseEnd \<and> content (items d ! i) \<noteq> None
            then Some (\<not> aria_expanded (items d ! i))
            else content_hidden (items d ! i))"
  using assms
  by (cases h; cases "content (items d ! i)";
      simp add: update_content_nth aria_expanded_def content_hidden_def)+

lemma fold_run_handler:
  assumes "i < length (items d)" and "content (items d ! i) \<noteq> None"
  shows "length (items (fold (run_handler i) hs d)) = length (items d) \<and>
     aria_expanded (items (fold (run_handler i) hs d) ! i) = aria_expanded (items d ! i) \<and>
     content (items (fold (run_handler i) hs d) ! i) \<noteq> None \<and>
     content_hidden (items (fold (run_handler i) hs d) ! i) =
       (if CloseEnd \<in> set hs then Some (\<not> aria_expanded (items d ! i))
        else content_hidden (items d ! i))"
  using assms
proof (induction hs arbitrary: d)
  case Nil
  then show ?case by simp
next
  case (Cons h hs)
  let ?d1 = "run_handler i h d"
  have i1: "i < length (items ?d1)"
    using run_handler_item(1) [OF Cons.prems(1)] Cons.prems(1) by simp
  have c1: "content (items ?d1 ! i) \<noteq> None"
    using run_handler_item(3) [OF Cons.prems(1)] Cons.prems(2) by simp
  note ih = Cons.IH [OF i1 c1]
  show ?case
    using ih run_handler_item [OF Cons.prems(1), of h] Cons.prems(2)
    by (cases h) auto
qed

text \<open>
  Claim C7. The \<^verbatim>\<open>transitionend\<close> listener of \<^verbatim>\<open>animateClose\<close> sets the hidden flag of
  the content to whether the trigger's \<^verbatim>\<open>aria-expanded\<close> is not \<^verbatim>\<open>"true"\<close> when it
  runs: it hides the content only then. So when a transition of the content ends while a
  listener of a close is pending, the content ends hidden exactly when
  \<^verbatim>\<open>aria-expanded\<close> is not \<^verbatim>\<open>"true"\<close>, and the attribute is untouched: after an item was
  opened again before its close transition ended, the content is not left hidden while
  \<^verbatim>\<open>aria-expanded\<close> is \<^verbatim>\<open>"true"\<close>.
\<close>

theorem stale_close_handler:
  assumes "i < length (items d)" and "content (items d ! i) = Some c"
    and "CloseEnd \<in> set (transitionend c)"
  shows "content_hidden (items (run_handler i CloseEnd d) ! i) =
           Some (\<not> aria_expanded (items d ! i)) \<and>
         content_hidden (items (transitionend_event i d) ! i) =
           Some (\<not> aria_expanded (items d ! i)) \<and>
         aria_expanded (items (transitionend_event i d) ! i) = aria_expanded (items d ! i)"
proof -
  have h1: "content_hidden (items (run_handler i CloseEnd d) ! i) =
           Some (\<not> aria_expanded (items d ! i))"
    using run_handler_item(4) [OF assms(1), of CloseEnd] assms(2) by simp
  let ?d0 = "update_content i (\<lambda>c. c\<lparr>transitionend := []\<rparr>) d"
  have te: "transitionend_event i d = fold (run_handler i) (transitionend c) ?d0"
    using assms(1,2) by (simp add: transitionend_event_def item_at_def)
  have i0: "i < length (items ?d0)"
    using assms(1) by (simp add: update_content_nth)
  have c0: "content (items ?d0 ! i) \<noteq> None"
    using assms(1,2) by (simp add: update_content_nth)
  have e0: "aria_expanded (items ?d0 ! i) = aria_expanded (items d ! i)"
    using assms(1) by (simp add: update_content_nth aria_expanded_def)
  show ?thesis
    using h1 fold_run_handler [OF i0 c0, of "transitionend c"] assms(3) te e0 by simp
qed

theorem stale_close_handler_witness:
  "1 < length (items reopened) \<and>
   map_option transitionend (content (items reopened ! 1)) = Some [CloseEnd] \<and>
   aria_expanded (items reopened ! 1) \<and>
   content_hidden (items (run_handler 1 CloseEnd reopened) ! 1) = Some False \<and>
   content_hidden (items (transitionend_event 1 reopened) ! 1) = Some False \<and>
   aria_expanded (items (transitionend_event 1 reopened) ! 1)"
proof -
  have i: "1 < length (items reopened)"
    and c: "content (items reopened ! 1) =
       Some \<lparr>content_id = ''ds-accordion-content-demo-1'', c_attrs = [], hidden = False,
             style_height = ''0px'', style_opacity = ''0'', scrollHeight = 120,
             transitionend = [CloseEnd]\<rparr>"
    and e: "aria_expanded (items reopened ! 1)"
    by code_simp+
  have m: "CloseEnd \<in> set (transitionend \<lparr>content_id = ''ds-accordion-content-demo-1'',
             c_attrs = [], hidden = False,
             style_height = ''0px'', style_opacity = ''0'', scrollHeight = 120,
             transitionend = [CloseEnd]\<rparr>)"
    by simp
  show ?thesis
    using i e stale_close_handler [OF i c m] c by simp
qed

subsection \<open>Keys\<close>









subsection \<open>Items without a trigger or a content\<close>

text \<open>
  Claim C10. When the item at an index in range lacks a trigger or a content, \<open>open\<close> and
  \<open>close\<close> on that index throw a \<^verbatim>\<open>TypeError\<close> (the dereference of \<^verbatim>\<open>null\<close>), for
  any \<open>animate\<close>; and the loop of \<open>init\<close> passes over such an item without wiring it,
  the item staying in the sequence of items.
\<close>

theorem missing_part_throws:
  assumes "i < length (items d)" and "\<not> has_parts (items d ! i)"
  shows "(\<exists>d'. open this d (int i) animate = Inl (TypeError, d')) \<and>
         (\<exists>d'. close this d (int i) animate = Inl (TypeError, d')) \<and>
         init_items this gen (i # rest) d = init_items this gen rest d"
  using open_missing_part [OF assms] close_missing_part [OF assms]
    init_skips_missing_part [OF assms(2)]
  by blast

theorem missing_part_throws_witness:
  "\<not> isl (new_Accordion 0 (Some (demo_element [demo_bare_item])) None demo_gen) \<and>
   0 < length (items constructed_bare) \<and> \<not> has_parts (items constructed_bare ! 0) \<and>
   click_listeners constructed_bare = [[]] \<and>
   (\<exists>d'. open single constructed_bare (int 0) True = Inl (TypeError, d')) \<and>
   (\<exists>d'. close single constructed_bare (int 0) True = Inl (TypeError, d')) \<and>
   open single constructed_bare 99 True = Inr constructed_bare"
proof -
  have c: "\<not> isl (new_Accordion 0 (Some (demo_element [demo_bare_item])) None demo_gen)"
    and i: "0 < length (items constructed_bare)"
    and p: "\<not> has_parts (items constructed_bare ! 0)"
    and l: "click_listeners constructed_bare = [[]]"
    and o: "open single constructed_bare 99 True = Inr constructed_bare"
    by code_simp+
  show ?thesis
    using c i p l o missing_part_throws [OF i p, of single True] by simp
qed

subsection \<open>Destroy\<close>

lemma destroy_effects:
  "items (destroy this d) = items d \<and> dispatched (destroy this d) = dispatched d \<and>
   frames (destroy this d) = frames d \<and> accordionInstance (destroy this d) = None \<and>
   keydown (destroy this d) = remove1 this (keydown d)"
  by (simp add: destroy_def)

text \<open>
  Claim C9 fails on the code in its first part. On the constructed widget, \<open>destroy\<close>
  removes the keydown listener and the instance marker and leaves the items as they are,
  but the click listeners that \<open>init\<close> registered on the triggers stay. A later scan
  constructs a second instance, after which every trigger has two click listeners. A click
  on the trigger of the closed item 0 opens the item on the constructed widget, still opens
  it on the destroyed widget (through the listener of the destroyed instance), and leaves
  it closed after the second scan (the first listener opens it, the second closes it).
\<close>

theorem destroy_leaves_click_listeners:
  "keydown (destroy single constructed) = [] \<and>
   accordionInstance (destroy single constructed) = None \<and>
   items (destroy single constructed) = items constructed \<and>
   click_listeners (destroy single constructed) = [[(single, 0)], [(single, 1)]] \<and>
   accordionInstance rescanned = Some \<lparr>iid = 1, allowMultiple = False\<rparr> \<and>
   click_listeners rescanned =
     [[(single, 0), (\<lparr>iid = 1, allowMultiple = False\<rparr>, 0)],
      [(single, 1), (\<lparr>iid = 1, allowMultiple = False\<rparr>, 1)]] \<and>
   aria_expanded (items (click_event 0 constructed) ! 0) \<and>
   aria_expanded (items (click_event 0 (destroy single constructed)) ! 0) \<and>
   \<not> aria_expanded (items (click_event 0 rescanned) ! 0)"
  by code_simp

end
